theory Spec2Isabelle
  imports Main
begin

section \<open>Text primitives of the scripts\<close>

text \<open>
  The four scripts read a file into a Python \<^verbatim>\<open>str\<close>, rewrite it with
  \<^verbatim>\<open>re.sub\<close>, \<^verbatim>\<open>str.replace\<close>, \<^verbatim>\<open>split\<close> and
  \<^verbatim>\<open>join\<close>, and write it back. A \<^verbatim>\<open>str\<close> is modelled as a
  \<^typ>\<open>string\<close>; a \<^typ>\<open>char\<close> stands for a code point below 256, so text with
  code points beyond Latin-1 is outside the model, and so are the encoding and the newline
  translation of the file objects.
\<close>

definition nl :: char where
  "nl = CHR 0x0A"

definition dq :: char where
  "dq = CHR 0x22"


text \<open>\<^verbatim>\<open>s.startswith(p)\<close>\<close>

fun startswith :: "string \<Rightarrow> string \<Rightarrow> bool" where
  "startswith s [] = True"
| "startswith [] (p # ps) = False"
| "startswith (c # cs) (p # ps) = (c = p \<and> startswith cs ps)"

text \<open>\<^verbatim>\<open>p in s\<close> on strings: \<open>p\<close> occurs in \<open>s\<close> as a contiguous piece.\<close>

fun contains :: "string \<Rightarrow> string \<Rightarrow> bool" where
  "contains p [] = (p = [])"
| "contains p (c # cs) = (startswith (c # cs) p \<or> contains p cs)"

text \<open>\<^verbatim>\<open>s.count(c)\<close> for a one-character \<open>c\<close>; Python integers are unbounded.\<close>

definition count_char :: "string \<Rightarrow> char \<Rightarrow> int" where
  "count_char s c = int (length (filter (\<lambda>x. x = c) s))"

text \<open>
  \<^verbatim>\<open>s.replace(old, new)\<close>: the occurrences of \<open>old\<close> are found from the
  left and do not overlap. For the empty \<open>old\<close> Python puts \<open>new\<close> before every
  character and at the end.
\<close>

function replace :: "string \<Rightarrow> string \<Rightarrow> string \<Rightarrow> string" where
  "replace s [] new = new @ concat (map (\<lambda>c. c # new) s)"
| "replace [] (p # ps) new = []"
| "replace (c # cs) (p # ps) new =
     (if startswith (c # cs) (p # ps)
      then new @ replace (drop (length (p # ps)) (c # cs)) (p # ps) new
      else c # replace cs (p # ps) new)"
  by pat_completeness auto
termination
  by (relation "measure (\<lambda>(s, old, new). length s)") auto

text \<open>\<^verbatim>\<open>s.split(d)\<close> for a one-character separator: never the empty list.\<close>

fun split :: "char \<Rightarrow> string \<Rightarrow> string list" where
  "split d [] = [[]]"
| "split d (c # cs) =
     (if c = d then [] # split d cs
      else (case split d cs of [] \<Rightarrow> [[c]] | l # ls \<Rightarrow> (c # l) # ls))"

text \<open>\<^verbatim>\<open>d.join(ls)\<close> for a one-character \<open>d\<close>.\<close>

fun join :: "char \<Rightarrow> string list \<Rightarrow> string" where
  "join d [] = []"
| "join d [l] = l"
| "join d (l # l' # ls) = l @ d # join d (l' # ls)"

section \<open>Regular expressions\<close>

text \<open>
  The patterns of the scripts use literal text, one-character classes under \<^verbatim>\<open>+\<close>,
  \<^verbatim>\<open>*\<close> and \<^verbatim>\<open>?\<close>, capturing groups and one alternation of literals.
  The classes are the ones that occur: a single character, its complement \<^verbatim>\<open>[^c]\<close>,
  \<^verbatim>\<open>\w\<close>, \<^verbatim>\<open>\d\<close>, \<^verbatim>\<open>\s\<close> and \<^verbatim>\<open>[A-Za-z]\<close>, with the
  members Python gives them below code point 256.
\<close>

datatype cclass = Only char | Except char | Word | Digit | Space | Letter

datatype rx = Lit string | Plus cclass | Star cclass | Opt cclass
  | Group "rx list" | Alt "string list"

definition code :: "char \<Rightarrow> nat" where
  "code c = of_char c"

definition ascii_letter :: "char \<Rightarrow> bool" where
  "ascii_letter c = ((0x61 \<le> code c \<and> code c \<le> 0x7A) \<or> (0x41 \<le> code c \<and> code c \<le> 0x5A))"

definition is_digit :: "char \<Rightarrow> bool" where
  "is_digit c = (0x30 \<le> code c \<and> code c \<le> 0x39)"

definition is_space :: "char \<Rightarrow> bool" where
  "is_space c = ((0x09 \<le> code c \<and> code c \<le> 0x0D) \<or> (0x1C \<le> code c \<and> code c \<le> 0x20)
     \<or> code c = 0x85 \<or> code c = 0xA0)"

definition is_word :: "char \<Rightarrow> bool" where
  "is_word c = (ascii_letter c \<or> is_digit c \<or> code c = 0x5F
     \<or> code c = 0xAA \<or> code c = 0xB2 \<or> code c = 0xB3 \<or> code c = 0xB5
     \<or> code c = 0xB9 \<or> code c = 0xBA \<or> (0xBC \<le> code c \<and> code c \<le> 0xBE)
     \<or> (0xC0 \<le> code c \<and> code c \<le> 0xD6) \<or> (0xD8 \<le> code c \<and> code c \<le> 0xF6)
     \<or> 0xF8 \<le> code c)"

fun in_class :: "cclass \<Rightarrow> char \<Rightarrow> bool" where
  "in_class (Only d) c = (c = d)"
| "in_class (Except d) c = (c \<noteq> d)"
| "in_class Word c = is_word c"
| "in_class Digit c = is_digit c"
| "in_class Space c = is_space c"
| "in_class Letter c = ascii_letter c"

text \<open>
  A greedy repetition of a class tries the longest run first and gives characters back
  one at a time: \<open>spans cl s\<close> lists what is left of \<open>s\<close> after each choice, in the
  order the matcher tries them. The last entry is \<open>s\<close> itself (nothing consumed).
\<close>

fun spans :: "cclass \<Rightarrow> string \<Rightarrow> string list" where
  "spans cl [] = [[]]"
| "spans cl (c # cs) = (if in_class cl c then spans cl cs @ [c # cs] else [c # cs])"

text \<open>
  \<open>match_all rs s\<close> lists every way the sequence \<open>rs\<close> matches a prefix of \<open>s\<close>, in
  the order a backtracking matcher finds them: each entry is the texts of the capturing
  groups (numbered by their opening bracket) and the rest of \<open>s\<close>. The first entry is
  the match Python reports.
\<close>

type_synonym mres = "string list \<times> string"

fun match_one :: "rx \<Rightarrow> string \<Rightarrow> mres list"
  and match_all :: "rx list \<Rightarrow> string \<Rightarrow> mres list" where
  "match_one (Lit l) s = (if startswith s l then [([], drop (length l) s)] else [])"
| "match_one (Plus cl) s = map (Pair []) (butlast (spans cl s))"
| "match_one (Star cl) s = map (Pair []) (spans cl s)"
| "match_one (Opt cl) s =
     (case s of [] \<Rightarrow> [([], [])]
      | c # cs \<Rightarrow> if in_class cl c then [([], cs), ([], c # cs)] else [([], c # cs)])"
| "match_one (Alt ls) s =
     map (\<lambda>l. ([], drop (length l) s)) (filter (startswith s) ls)"
| "match_one (Group rs) s =
     map (\<lambda>(caps, rest). (take (length s - length rest) s # caps, rest)) (match_all rs s)"
| "match_all [] s = [([], s)]"
| "match_all (r # rs) s =
     concat (map (\<lambda>(c1, s1). map (\<lambda>(c2, s2). (c1 @ c2, s2)) (match_all rs s1)) (match_one r s))"

text \<open>
  A replacement is a function of the matched text and the groups: a template
  (\<^verbatim>\<open>r'Assert.Equal(\2, \1);'\<close>) or, once in the conversion script, a Python function of
  the match object.
\<close>

datatype tok = T string | G nat

fun expand :: "tok list \<Rightarrow> string \<Rightarrow> string list \<Rightarrow> string" where
  "expand [] m caps = []"
| "expand (T t # ts) m caps = t @ expand ts m caps"
| "expand (G n # ts) m caps =
     (if n = 0 then m else if n \<le> length caps then caps ! (n - 1) else []) @ expand ts m caps"

text \<open>
  \<^verbatim>\<open>re.sub(pattern, repl, s)\<close>: scan \<open>s\<close> from the left; where the pattern matches,
  emit the replacement and go on after the match; elsewhere copy one character. A match of
  length 0 is replaced and the scan moves one character on (no pattern of the scripts
  can match the empty text, as each begins with a literal).
\<close>

function re_sub :: "rx list \<Rightarrow> (string \<Rightarrow> string list \<Rightarrow> string) \<Rightarrow> string \<Rightarrow> string" where
  "re_sub p f [] = (case match_all p [] of [] \<Rightarrow> [] | (caps, rest) # _ \<Rightarrow> f [] caps)"
| "re_sub p f (c # cs) =
     (case match_all p (c # cs) of
        [] \<Rightarrow> c # re_sub p f cs
      | (caps, rest) # _ \<Rightarrow>
          if length rest < length (c # cs)
          then f (take (length (c # cs) - length rest) (c # cs)) caps @ re_sub p f rest
          else f [] caps @ c # re_sub p f cs)"
  by pat_completeness auto
termination
  by (relation "measure (\<lambda>(p, f, s). length s)") auto

type_synonym rule = "rx list \<times> tok list"

definition apply_rule :: "rule \<Rightarrow> string \<Rightarrow> string" where
  "apply_rule r s = re_sub (fst r) (expand (snd r)) s"

text \<open>
  A run of consecutive \<^verbatim>\<open>content = re.sub(..., content)\<close> statements: the rules are
  applied one after the other, each once, each to the output of the one before.
\<close>

fun apply_rules :: "rule list \<Rightarrow> string \<Rightarrow> string" where
  "apply_rules [] s = s"
| "apply_rules (r # rs) s = apply_rules rs (apply_rule r s)"

text \<open>\<^verbatim>\<open>([^)]+)\<close>, the group most patterns use for an argument.\<close>

definition arg :: rx where
  "arg = Group [Plus (Except CHR '')'')]"

section \<open>convert-tunit-to-xunit.py\<close>

subsection \<open>The steps of \<^verbatim>\<open>convert_file\<close> on the content\<close>

text \<open>\<^verbatim>\<open>any(pattern in content for pattern in ['[Test]', 'await Assert.That', 'TUnit'])\<close>\<close>

definition has_tunit_syntax :: "string \<Rightarrow> bool" where
  "has_tunit_syntax content =
     (contains ''[Test]'' content \<or> contains ''await Assert.That'' content
      \<or> contains ''TUnit'' content)"

text \<open>Step 1: the three \<^verbatim>\<open>using TUnit...;?\s*\n\<close> removals.\<close>

definition using_rules :: "rule list" where
  "using_rules =
    [([Lit ''using TUnit.Core'', Opt (Only CHR '';''), Star Space, Lit [nl]], []),
     ([Lit ''using TUnit.Assertions'', Opt (Only CHR '';''), Star Space, Lit [nl]], []),
     ([Lit ''using TUnit.Assertions.Extensions'', Opt (Only CHR '';''), Star Space, Lit [nl]], [])]"

text \<open>
  The loop that looks for the place of \<^verbatim>\<open>using Xunit;\<close>: \<open>i\<close> is the index of
  the line at the head, \<open>insert_index\<close> the value found so far; a line that starts with
  \<^verbatim>\<open>namespace \<close> ends the loop.
\<close>

fun find_insert_index :: "string list \<Rightarrow> nat \<Rightarrow> nat \<Rightarrow> nat" where
  "find_insert_index [] i insert_index = insert_index"
| "find_insert_index (line # lines) i insert_index =
     (if startswith line ''using '' \<and> \<not> startswith line ''using Xunit''
      then find_insert_index lines (i + 1) (i + 1)
      else if startswith line ''namespace '' then insert_index
      else find_insert_index lines (i + 1) insert_index)"

text \<open>\<^verbatim>\<open>lines.insert(k, x)\<close>; an index beyond the end appends.\<close>

definition list_insert :: "'a list \<Rightarrow> nat \<Rightarrow> 'a \<Rightarrow> 'a list" where
  "list_insert xs k x = take k xs @ x # drop k xs"

definition ensure_xunit_using :: "string \<Rightarrow> string" where
  "ensure_xunit_using content =
     (if contains ''[Test]'' content \<or> contains ''[Fact]'' content
      then (if \<not> contains ''using Xunit;'' content
            then (let lines = split nl content;
                      insert_index = find_insert_index lines 0 0
                  in join nl (list_insert lines insert_index ''using Xunit;''))
            else content)
      else content)"

text \<open>Steps 2 to 4: attributes, signatures and assertions, in the order of the source.\<close>

definition convert_rules :: "rule list" where
  "convert_rules =
    [([Lit ''[Test]''], [T ''[Fact]'']),
     ([Lit ''[TestMethod]''], [T ''[Fact]'']),
     ([Lit ''public async void '', Group [Plus Word], Lit ''()''],
      [T ''public void '', G 1, T ''()'']),
     ([Lit ''public async Task '', Group [Plus Word], Lit ''()''],
      [T ''public async Task '', G 1, T ''()'']),
     ([Lit ''await Assert.That('', arg, Lit '').IsEqualTo('', arg, Lit '');''],
      [T ''Assert.Equal('', G 2, T '', '', G 1, T '');'']),
     ([Lit ''await Assert.That('', arg, Lit '').IsNotEqualTo('', arg, Lit '');''],
      [T ''Assert.NotEqual('', G 2, T '', '', G 1, T '');'']),
     ([Lit ''await Assert.That('', arg, Lit '').IsNotNull();''],
      [T ''Assert.NotNull('', G 1, T '');'']),
     ([Lit ''await Assert.That('', arg, Lit '').IsNull();''],
      [T ''Assert.Null('', G 1, T '');'']),
     ([Lit ''await Assert.That('', arg, Lit '').IsTrue();''],
      [T ''Assert.True('', G 1, T '');'']),
     ([Lit ''await Assert.That('', arg, Lit '').IsFalse();''],
      [T ''Assert.False('', G 1, T '');'']),
     ([Lit ''await Assert.That('', arg, Lit '').IsGreaterThan('', arg, Lit '');''],
      [T ''Assert.True('', G 1, T '' > '', G 2, T '');'']),
     ([Lit ''await Assert.That('', arg, Lit '').IsGreaterThanOrEqualTo('', arg, Lit '');''],
      [T ''Assert.True('', G 1, T '' >= '', G 2, T '');'']),
     ([Lit ''await Assert.That('', arg, Lit '').IsLessThan('', arg, Lit '');''],
      [T ''Assert.True('', G 1, T '' < '', G 2, T '');'']),
     ([Lit ''await Assert.That('', arg, Lit '').IsLessThanOrEqualTo('', arg, Lit '');''],
      [T ''Assert.True('', G 1, T '' <= '', G 2, T '');'']),
     ([Lit ''await Assert.That('', arg, Lit '').Contains('', arg, Lit '');''],
      [T ''Assert.Contains('', G 2, T '', '', G 1, T '');'']),
     ([Lit ''await Assert.That('', arg, Lit '').DoesNotContain('', arg, Lit '');''],
      [T ''Assert.DoesNotContain('', G 2, T '', '', G 1, T '');'']),
     ([Lit ''await Assert.That('', arg, Lit '').IsEmpty();''],
      [T ''Assert.Empty('', G 1, T '');'']),
     ([Lit ''await Assert.That('', arg, Lit '').IsNotEmpty();''],
      [T ''Assert.NotEmpty('', G 1, T '');'']),
     ([Lit ''await Assert.That('', arg, Lit '').HasCount('', arg, Lit '');''],
      [T ''Assert.Equal('', G 2, T '', '', G 1, T ''.Count);'']),
     ([Lit ''Assert.Equal(0, '', arg, Lit ''.Count);''],
      [T ''Assert.Empty('', G 1, T '');'']),
     ([Lit ''Assert.Equal(1, '', arg, Lit ''.Count);''],
      [T ''Assert.Single('', G 1, T '');'']),
     ([Lit ''await Assert.That('', arg, Lit '').IsTypeOf<'', Group [Plus (Except CHR ''>'')],
       Lit ''>();''],
      [T ''Assert.IsType<'', G 2, T ''>('', G 1, T '');'']),
     ([Lit ''await Assert.That('', arg, Lit '').IsAssignableFrom<'',
       Group [Plus (Except CHR ''>'')], Lit ''>();''],
      [T ''Assert.IsAssignableFrom<'', G 2, T ''>('', G 1, T '');''])]"

text \<open>Step 5: the replacement function for what is left of \<^verbatim>\<open>await Assert.That\<close>.\<close>

definition replace_multiline_assertions :: "string \<Rightarrow> string list \<Rightarrow> string" where
  "replace_multiline_assertions full_match caps =
     (if contains ''.IsEqualTo('' full_match
      then replace (replace full_match ''await Assert.That('' ''Assert.Equal('')
             '').IsEqualTo('' '', ''
      else if contains ''.IsNotNull()'' full_match
      then replace (replace full_match ''await Assert.That('' ''Assert.NotNull('')
             '').IsNotNull();'' '');''
      else if contains ''.IsTrue()'' full_match
      then replace (replace full_match ''await Assert.That('' ''Assert.True('')
             '').IsTrue();'' '');''
      else if contains ''.IsFalse()'' full_match
      then replace (replace full_match ''await Assert.That('' ''Assert.False('')
             '').IsFalse();'' '');''
      else full_match)"

definition multiline_pattern :: "rx list" where
  "multiline_pattern = [Lit ''await Assert.That('', Plus (Except CHR '';''), Lit '');'']"

text \<open>
  Step 6, the inner loop \<^verbatim>\<open>for j in range(method_start, len(lines))\<close>: the first
  argument is \<^verbatim>\<open>lines[j:]\<close>; the result is \<^verbatim>\<open>method_end\<close>, which keeps its
  initial value \<open>method_start\<close> when the loop ends without a \<^verbatim>\<open>break\<close>.
\<close>

fun find_method_end :: "string list \<Rightarrow> nat \<Rightarrow> int \<Rightarrow> bool \<Rightarrow> nat \<Rightarrow> nat" where
  "find_method_end [] j brace_count found_start method_start = method_start"
| "find_method_end (l # ls) j brace_count found_start method_start =
     (let opened = contains ''{'' l;
          count1 = (if opened then brace_count + count_char l CHR ''{'' else brace_count);
          found1 = (opened \<or> found_start);
          count2 = (if contains ''}'' l then count1 - count_char l CHR ''}'' else count1)
      in if found1 \<and> count2 = 0 then j
         else find_method_end ls (j + 1) count2 found1 method_start)"

text \<open>\<^verbatim>\<open>lines[a:b]\<close> for \<open>a \<le> b\<close>.\<close>

definition slice :: "'a list \<Rightarrow> nat \<Rightarrow> nat \<Rightarrow> 'a list" where
  "slice xs a b = take (b - a) (drop a xs)"

text \<open>
  Step 6, the outer loop over \<^verbatim>\<open>enumerate(lines)\<close>, which assigns to
  \<^verbatim>\<open>lines[i]\<close> while it runs.
\<close>

definition needs_check :: "string \<Rightarrow> bool" where
  "needs_check line = (contains ''public async Task'' line \<and> contains ''()'' line)"

definition method_content :: "string list \<Rightarrow> nat \<Rightarrow> string" where
  "method_content lines i =
     (let method_end = find_method_end (drop i lines) i 0 False i
      in join nl (slice lines i (method_end + 1)))"

function remove_async :: "nat \<Rightarrow> string list \<Rightarrow> string list" where
  "remove_async i lines =
     (if i < length lines
      then (if needs_check (lines ! i) \<and> \<not> contains ''await '' (method_content lines i)
            then remove_async (i + 1)
                   (lines[i := replace (lines ! i) ''public async Task'' ''public void''])
            else remove_async (i + 1) lines)
      else lines)"
  by pat_completeness auto
termination
  by (relation "measure (\<lambda>(i, lines). length lines - i)") auto

text \<open>Step 7: the loop that drops repeated \<^verbatim>\<open>using\<close> lines.\<close>

fun filter_usings :: "string list \<Rightarrow> string set \<Rightarrow> string list" where
  "filter_usings [] seen_usings = []"
| "filter_usings (line # lines) seen_usings =
     (if startswith line ''using ''
      then (if line \<notin> seen_usings
            then line # filter_usings lines (insert line seen_usings)
            else filter_usings lines seen_usings)
      else line # filter_usings lines seen_usings)"

text \<open>Steps 1 to 6 on the content, each on the output of the one before.\<close>

definition steps_1_to_6 :: "string \<Rightarrow> string" where
  "steps_1_to_6 content =
     (let c1 = apply_rules using_rules content;
          c2 = ensure_xunit_using c1;
          c4 = apply_rules convert_rules c2;
          c5 = re_sub multiline_pattern replace_multiline_assertions c4
      in join nl (remove_async 0 (split nl c5)))"

text \<open>The content \<^verbatim>\<open>convert_file\<close> writes, from the content it read.\<close>

definition convert_content :: "string \<Rightarrow> string" where
  "convert_content content = join nl (filter_usings (split nl (steps_1_to_6 content)) {})"

subsection \<open>Files, console and exceptions\<close>

text \<open>
  What a script can see and change: the text of each file (\<open>None\<close> for a path that
  cannot be opened and read), the paths that cannot be opened for writing, the answer of
  \<^verbatim>\<open>glob.glob\<close> for \<^verbatim>\<open>*.cs\<close> in the test directory, and the trace of what has been
  done so far, oldest first. \<open>Read\<close> and \<open>Write\<close> record the attempt to open the file.
\<close>

type_synonym path = string

datatype exn = IO_error | Re_error

datatype msg =
    Converting_files nat | Converting path | Skipping path | Converted path
  | Error_converting path exn | Conversion_complete
  | Fixing_files nat | Fixing path | Fixed path | No_changes_needed path
  | Error_fixing path exn | Fixes_complete | Fixed_files nat | Done

datatype event = Read path | Write path string | Print msg

record world =
  files :: "path \<Rightarrow> string option"
  readonly :: "path set"
  glob_result :: "path list"
  trace :: "event list"

definition log :: "event \<Rightarrow> world \<Rightarrow> world" where
  "log e w = w\<lparr>trace := trace w @ [e]\<rparr>"

text \<open>\<^verbatim>\<open>with open(p, 'r') as f: content = f.read()\<close>\<close>

definition read_file :: "path \<Rightarrow> world \<Rightarrow> (exn + string) \<times> world" where
  "read_file p w =
     (case files w p of None \<Rightarrow> (Inl IO_error, log (Read p) w)
      | Some content \<Rightarrow> (Inr content, log (Read p) w))"

text \<open>\<^verbatim>\<open>with open(p, 'w') as f: f.write(content)\<close>\<close>

definition write_file :: "path \<Rightarrow> string \<Rightarrow> world \<Rightarrow> exn option \<times> world" where
  "write_file p content w =
     (if p \<in> readonly w then (Some IO_error, log (Write p content) w)
      else (None, log (Write p content) (w\<lparr>files := (files w)(p \<mapsto> content)\<rparr>)))"

text \<open>\<^verbatim>\<open>os.path.basename\<close>: what follows the last \<^verbatim>\<open>/\<close>.\<close>

definition basename :: "path \<Rightarrow> string" where
  "basename p = rev (takeWhile (\<lambda>c. c \<noteq> CHR ''/'') (rev p))"

definition skip_files :: "string list" where
  "skip_files = [''InMemoryAnalysisService.cs'', ''InMemoryProjectGenerator.cs'', ''TestSetup.cs'']"

subsection \<open>\<^verbatim>\<open>convert_file\<close> and \<^verbatim>\<open>main\<close>\<close>

definition convert_file :: "path \<Rightarrow> world \<Rightarrow> exn option \<times> world" where
  "convert_file file_path w =
     (case read_file file_path (log (Print (Converting file_path)) w) of
        (Inl e, w1) \<Rightarrow> (Some e, w1)
      | (Inr content, w1) \<Rightarrow>
          if \<not> has_tunit_syntax content
          then (None, log (Print (Skipping file_path)) w1)
          else (case write_file file_path (convert_content content) w1 of
                  (Some e, w2) \<Rightarrow> (Some e, w2)
                | (None, w2) \<Rightarrow> (None, log (Print (Converted file_path)) w2)))"

text \<open>\<^verbatim>\<open>[f for f in cs_files if os.path.basename(f) not in skip_files]\<close>\<close>

definition cs_files :: "path list \<Rightarrow> path list" where
  "cs_files globbed = filter (\<lambda>f. basename f \<notin> set skip_files) globbed"

text \<open>The loop of \<^verbatim>\<open>main\<close> with its \<^verbatim>\<open>try\<close> / \<^verbatim>\<open>except Exception\<close>.\<close>

fun convert_each :: "path list \<Rightarrow> world \<Rightarrow> world" where
  "convert_each [] w = w"
| "convert_each (file_path # rest) w =
     (case convert_file file_path w of
        (None, w1) \<Rightarrow> convert_each rest w1
      | (Some e, w1) \<Rightarrow> convert_each rest (log (Print (Error_converting file_path e)) w1))"

definition convert_main :: "world \<Rightarrow> world" where
  "convert_main w =
     (let fs = cs_files (glob_result w);
          w1 = log (Print (Converting_files (length fs))) w;
          w2 = convert_each fs w1
      in log (Print Conversion_complete) w2)"

section \<open>fix-final-assertions.py\<close>

text \<open>\<^verbatim>\<open>[^)]+\.GetProperty\([^)]+\)\.GetInt32\(\)\<close> and its like, inside a group.\<close>

definition get_property :: "char \<Rightarrow> string \<Rightarrow> rx list" where
  "get_property stop getter =
     [Plus (Except stop), Lit ''.GetProperty('', Plus (Except CHR '')''), Lit ('').'' @ getter @ ''()'')]"

text \<open>\<^verbatim>\<open>("([^"]*)")\<close>\<close>

definition quoted :: rx where
  "quoted = Group [Lit [dq], Group [Star (Except dq)], Lit [dq]]"

definition fix_final_rules :: "rule list" where
  "fix_final_rules =
    [([Lit ''await Assert.That('', Group (get_property CHR '')'' ''GetInt32''),
       Lit '').IsGreaterThan('', Group [Plus Digit], Lit '');''],
      [T ''Assert.True('', G 1, T '' > '', G 2, T '');'']),
     ([Lit ''await Assert.That('', Group (get_property CHR '')'' ''GetInt32''),
       Lit '').IsGreaterThanOrEqualTo('', Group [Plus Digit], Lit '');''],
      [T ''Assert.True('', G 1, T '' >= '', G 2, T '');'']),
     ([Lit ''await Assert.That('', Group (get_property CHR '')'' ''GetString''),
       Lit '').Contains('', arg, Lit '');''],
      [T ''Assert.Contains('', G 2, T '', '', G 1, T '');'']),
     ([Lit ''await Assert.That('', arg, Lit '').Contains('', arg, Lit '');''],
      [T ''Assert.Contains('', G 2, T '', '', G 1, T '');'']),
     ([Lit ''Assert.Equal('', Group (get_property CHR '','' ''GetString''), Lit '', '', quoted,
       Lit '');''],
      [T ''Assert.Equal('', G 2, T '', '', G 1, T '');'']),
     ([Lit ''Assert.Equal('', Group (get_property CHR '','' ''GetInt32''), Lit '', '',
       Group [Plus Digit], Lit '');''],
      [T ''Assert.Equal('', G 2, T '', '', G 1, T '');'']),
     ([Lit ''Assert.Equal('', Group (get_property CHR '','' ''GetBoolean''), Lit '', '',
       Group [Alt [''true'', ''false'']], Lit '');''],
      [T ''Assert.Equal('', G 2, T '', '', G 1, T '');'']),
     ([Lit ''Assert.Equal('', Group [Plus (Except CHR '','')], Lit '', '',
       Group [Lit ''JsonValueKind.'', Plus Letter], Lit '');''],
      [T ''Assert.Equal('', G 2, T '', '', G 1, T '');'']),
     ([Lit ''Assert.True('', Group [Plus (Except CHR ''.'')], Lit ''.Contains('', arg, Lit ''));''],
      [T ''Assert.Contains('', G 2, T '', '', G 1, T '');'']),
     ([Lit ''Assert.Equal(0, '', Group [Plus (Except CHR ''.'')], Lit ''.Count);''],
      [T ''Assert.Empty('', G 1, T '');'']),
     ([Lit ''Assert.True('', Group [Plus (Except CHR ''.'')], Lit ''.StartsWith('', arg, Lit ''));''],
      [T ''Assert.StartsWith('', G 2, T '', '', G 1, T '');'']),
     ([Lit ''Assert.True('', Group [Plus (Except CHR ''.'')], Lit ''.EndsWith('', arg, Lit ''));''],
      [T ''Assert.EndsWith('', G 2, T '', '', G 1, T '');''])]"

definition fix_file :: "path \<Rightarrow> world \<Rightarrow> exn option \<times> world" where
  "fix_file filename w =
     (case read_file filename w of
        (Inl e, w1) \<Rightarrow> (Some e, w1)
      | (Inr original, w1) \<Rightarrow>
          (let content = apply_rules fix_final_rules original
           in if content \<noteq> original
              then (case write_file filename content w1 of
                      (Some e, w2) \<Rightarrow> (Some e, w2)
                    | (None, w2) \<Rightarrow> (None, log (Print (Fixed filename)) w2))
              else (None, log (Print (No_changes_needed filename)) w1)))"

definition fix_final_files :: "path list" where
  "fix_final_files =
    [''/home/henning/Workbench/MCP/MCP.Tests/SimpleInMemoryTests.cs'',
     ''/home/henning/Workbench/MCP/MCP.Tests/Tests2.cs'',
     ''/home/henning/Workbench/MCP/MCP.Tests/Tests3.cs'',
     ''/home/henning/Workbench/MCP/MCP.Tests/CodeSuggestionsErrorHandlingTests.cs'',
     ''/home/henning/Workbench/MCP/MCP.Tests/WorkingTests.cs'',
     ''/home/henning/Workbench/MCP/MCP.Tests/RealCodeCoverageTests.cs'',
     ''/home/henning/Workbench/MCP/MCP.Tests/ProductionCodeTests.cs'',
     ''/home/henning/Workbench/MCP/MCP.Tests/CodeSuggestionsIntegrationTests.cs'',
     ''/home/henning/Workbench/MCP/MCP.Tests/CodeSuggestionsTests.cs'',
     ''/home/henning/Workbench/MCP/MCP.Tests/SimpleTests.cs'',
     ''/home/henning/Workbench/MCP/MCP.Tests/InMemoryTests.cs'']"

fun fix_final_each :: "path list \<Rightarrow> world \<Rightarrow> world" where
  "fix_final_each [] w = w"
| "fix_final_each (file # rest) w =
     (case fix_file file w of
        (None, w1) \<Rightarrow> fix_final_each rest w1
      | (Some e, w1) \<Rightarrow> fix_final_each rest (log (Print (Error_fixing file e)) w1))"

definition fix_final_script :: "world \<Rightarrow> world" where
  "fix_final_script w = log (Print Done) (fix_final_each fix_final_files w)"

section \<open>fix-remaining-xunit-issues.py\<close>

text \<open>
  \<^verbatim>\<open>re.sub\<close> compiles its pattern first and raises \<^verbatim>\<open>re.error\<close> when the pattern is
  not a regular expression; \<open>None\<close> stands for such a pattern. The pattern of line 35,
  \<^verbatim>\<open>Assert\.Equal\(([^,]+), (\'([^\']*)\'))\<close>, is one: its last bracket closes nothing
  (\<^verbatim>\<open>unbalanced parenthesis at position 38\<close>).
\<close>

type_synonym checked_rule = "rx list option \<times> tok list"

fun apply_checked :: "checked_rule list \<Rightarrow> string \<Rightarrow> exn + string" where
  "apply_checked [] s = Inr s"
| "apply_checked ((None, t) # rs) s = Inl Re_error"
| "apply_checked ((Some p, t) # rs) s = apply_checked rs (re_sub p (expand t) s)"

definition fix_remaining_rules :: "checked_rule list" where
  "fix_remaining_rules =
    [(Some [Lit ''Assert.That('', arg, Lit '').IsEqualTo('', arg, Lit '')''],
      [T ''Assert.Equal('', G 2, T '', '', G 1, T '')'']),
     (Some [Lit ''Assert.That('', arg, Lit '').IsNotEqualTo('', arg, Lit '')''],
      [T ''Assert.NotEqual('', G 2, T '', '', G 1, T '')'']),
     (Some [Lit ''Assert.That('', arg, Lit '').IsNotNull()''],
      [T ''Assert.NotNull('', G 1, T '')'']),
     (Some [Lit ''Assert.That('', arg, Lit '').IsNull()''],
      [T ''Assert.Null('', G 1, T '')'']),
     (Some [Lit ''Assert.That('', arg, Lit '').IsTrue()''],
      [T ''Assert.True('', G 1, T '')'']),
     (Some [Lit ''Assert.That('', arg, Lit '').IsFalse()''],
      [T ''Assert.False('', G 1, T '')'']),
     (Some [Lit ''Assert.That('', arg, Lit '').Contains('', arg, Lit '')''],
      [T ''Assert.Contains('', G 2, T '', '', G 1, T '')'']),
     (Some [Lit ''Assert.That('', arg, Lit '').IsEmpty()''],
      [T ''Assert.Empty('', G 1, T '')'']),
     (Some [Lit ''Assert.That('', arg, Lit '').IsNotEmpty()''],
      [T ''Assert.NotEmpty('', G 1, T '')'']),
     (Some [Lit ''Assert.Equal('', Group [Plus (Except CHR '','')], Lit '', '', quoted, Lit '')''],
      [T ''Assert.Equal('', G 2, T '', '', G 1, T '')'']),
     (None,
      [T ''Assert.Equal('', G 2, T '', '', G 1, T '')'']),
     (Some [Lit ''Assert.Equal('', Group [Plus (Except CHR '','')], Lit '', '', Group [Plus Digit],
            Lit '')''],
      [T ''Assert.Equal('', G 2, T '', '', G 1, T '')'']),
     (Some [Lit ''Assert.Equal('', Group [Plus (Except CHR '','')], Lit '', '',
            Group [Lit ''JsonValueKind.'', Plus Letter], Lit '')''],
      [T ''Assert.Equal('', G 2, T '', '', G 1, T '')'']),
     (Some [Lit ''Assert.Equal('', Group [Plus (Except CHR '','')], Lit '', '',
            Group [Alt [''true'', ''false'']], Lit '')''],
      [T ''Assert.Equal('', G 2, T '', '', G 1, T '')'']),
     (Some [Lit ''Assert.True('', Group [Plus (Except CHR ''.'')], Lit ''.Contains('', arg,
            Lit ''))''],
      [T ''Assert.Contains('', G 2, T '', '', G 1, T '')'']),
     (Some [Lit ''Assert.Equal(0, '', Group [Plus (Except CHR ''.'')], Lit ''.Count)''],
      [T ''Assert.Empty('', G 1, T '')'']),
     (Some [Lit ''Assert.True('', Group [Plus (Except CHR ''.'')], Lit ''.StartsWith('', arg,
            Lit ''))''],
      [T ''Assert.StartsWith('', G 2, T '', '', G 1, T '')'']),
     (Some [Lit ''Assert.True('', Group [Plus (Except CHR ''.'')], Lit ''.EndsWith('', arg,
            Lit ''))''],
      [T ''Assert.EndsWith('', G 2, T '', '', G 1, T '')'']),
     (Some [Lit ''Assert.Equal('', Group [Plus (Except CHR '','')], Lit (''.GetProperty('' @ [dq]),
            Group [Plus (Except dq)], Lit ([dq] @ '').GetString(), ''), quoted, Lit '')''],
      [T ''Assert.Equal('', G 3, T '', '', G 1, T (''.GetProperty('' @ [dq]), G 2,
       T ([dq] @ '').GetString())'')]),
     (Some [Lit ''Assert.Equal('', Group [Plus (Except CHR '','')], Lit (''.GetProperty('' @ [dq]),
            Group [Plus (Except dq)], Lit ([dq] @ '').GetInt32(), ''), Group [Plus Digit], Lit '')''],
      [T ''Assert.Equal('', G 3, T '', '', G 1, T (''.GetProperty('' @ [dq]), G 2,
       T ([dq] @ '').GetInt32())'')])]"

definition fix_remaining_assertions :: "path \<Rightarrow> world \<Rightarrow> exn option \<times> world" where
  "fix_remaining_assertions file_path w =
     (case read_file file_path (log (Print (Fixing file_path)) w) of
        (Inl e, w1) \<Rightarrow> (Some e, w1)
      | (Inr original_content, w1) \<Rightarrow>
          (case apply_checked fix_remaining_rules original_content of
             Inl e \<Rightarrow> (Some e, w1)
           | Inr content \<Rightarrow>
               if content \<noteq> original_content
               then (case write_file file_path content w1 of
                       (Some e, w2) \<Rightarrow> (Some e, w2)
                     | (None, w2) \<Rightarrow> (None, log (Print (Fixed file_path)) w2))
               else (None, log (Print (No_changes_needed file_path)) w1)))"

fun fix_remaining_each :: "path list \<Rightarrow> world \<Rightarrow> world" where
  "fix_remaining_each [] w = w"
| "fix_remaining_each (file_path # rest) w =
     (case fix_remaining_assertions file_path w of
        (None, w1) \<Rightarrow> fix_remaining_each rest w1
      | (Some e, w1) \<Rightarrow> fix_remaining_each rest (log (Print (Error_fixing file_path e)) w1))"

definition fix_remaining_main :: "world \<Rightarrow> world" where
  "fix_remaining_main w =
     (let fs = cs_files (glob_result w);
          w1 = log (Print (Fixing_files (length fs))) w;
          w2 = fix_remaining_each fs w1
      in log (Print Fixes_complete) w2)"

section \<open>fix-xunit-warnings.py\<close>

definition fix_xunit_rules :: "rule list" where
  "fix_xunit_rules =
    [([Lit ''Assert.True('', Group [Plus (Except CHR ''.'')], Lit ''.Contains('', arg, Lit ''));''],
      [T ''Assert.Contains('', G 2, T '', '', G 1, T '');'']),
     ([Lit ''Assert.Equal(0, '', Group [Plus (Except CHR ''.'')], Lit ''.Count);''],
      [T ''Assert.Empty('', G 1, T '');'']),
     ([Lit ''Assert.Equal(0, '', Group [Plus (Except CHR ''.'')], Lit ''.Length);''],
      [T ''Assert.Empty('', G 1, T '');'']),
     ([Lit ''Assert.Equal('', Group (get_property CHR '','' ''GetString''), Lit '', '', quoted,
       Lit '');''],
      [T ''Assert.Equal('', G 2, T '', '', G 1, T '');'']),
     ([Lit ''Assert.Equal('', Group [Plus (Except CHR '','')], Lit '', '', quoted, Lit '');''],
      [T ''Assert.Equal('', G 2, T '', '', G 1, T '');''])]"

text \<open>The result is the exception, or the Boolean the function returns.\<close>

definition fix_xunit_warnings :: "path \<Rightarrow> world \<Rightarrow> (exn + bool) \<times> world" where
  "fix_xunit_warnings file_path w =
     (case read_file file_path w of
        (Inl e, w1) \<Rightarrow> (Inl e, w1)
      | (Inr original, w1) \<Rightarrow>
          (let content = apply_rules fix_xunit_rules original
           in if content \<noteq> original
              then (case write_file file_path content w1 of
                      (Some e, w2) \<Rightarrow> (Inl e, w2)
                    | (None, w2) \<Rightarrow> (Inr True, log (Print (Fixed file_path)) w2))
              else (Inr False, w1)))"

text \<open>\<^verbatim>\<open>[f for f in test_files if not any(skip in f for skip in skip_files)]\<close>\<close>

definition test_files :: "path list \<Rightarrow> path list" where
  "test_files globbed = filter (\<lambda>f. \<not> list_ex (\<lambda>skip. contains skip f) skip_files) globbed"

fun fix_xunit_each :: "path list \<Rightarrow> nat \<Rightarrow> world \<Rightarrow> nat \<times> world" where
  "fix_xunit_each [] fixed_count w = (fixed_count, w)"
| "fix_xunit_each (file_path # rest) fixed_count w =
     (case fix_xunit_warnings file_path w of
        (Inr True, w1) \<Rightarrow> fix_xunit_each rest (fixed_count + 1) w1
      | (Inr False, w1) \<Rightarrow> fix_xunit_each rest fixed_count w1
      | (Inl e, w1) \<Rightarrow> fix_xunit_each rest fixed_count (log (Print (Error_fixing file_path e)) w1))"

definition fix_xunit_script :: "world \<Rightarrow> world" where
  "fix_xunit_script w =
     (case fix_xunit_each (test_files (glob_result w)) 0 w of
        (fixed_count, w1) \<Rightarrow> log (Print Done) (log (Print (Fixed_files fixed_count)) w1))"

section \<open>Vocabulary of the properties\<close>

text \<open>The events a call or a run adds to the trace.\<close>

definition new_events :: "world \<Rightarrow> world \<Rightarrow> event list" where
  "new_events w w' = drop (length (trace w)) (trace w')"

text \<open>The attempts to write among some events: path and text, in order.\<close>

definition writes :: "event list \<Rightarrow> (path \<times> string) list" where
  "writes evs = concat (map (\<lambda>e. case e of Write p c \<Rightarrow> [(p, c)] | _ \<Rightarrow> []) evs)"

text \<open>A world with a single readable, writable file and an empty trace.\<close>

definition one_file :: "path \<Rightarrow> string \<Rightarrow> world" where
  "one_file p content =
     \<lparr>files = (\<lambda>q. if q = p then Some content else None), readonly = {}, glob_result = [p],
      trace = []\<rparr>"

text \<open>
  The files a run started on (\<^verbatim>\<open>Converting ...\<close>, \<^verbatim>\<open>Fixing ...\<close>), the files it
  opened for reading and the errors it reported, each in the order of the trace.
\<close>

definition started :: "event list \<Rightarrow> path list" where
  "started evs =
     concat (map (\<lambda>e. case e of Print (Converting p) \<Rightarrow> [p] | Print (Fixing p) \<Rightarrow> [p]
                        | _ \<Rightarrow> []) evs)"

definition reads :: "event list \<Rightarrow> path list" where
  "reads evs = concat (map (\<lambda>e. case e of Read p \<Rightarrow> [p] | _ \<Rightarrow> []) evs)"

definition reported :: "event list \<Rightarrow> (path \<times> exn) list" where
  "reported evs =
     concat (map (\<lambda>e. case e of Print (Error_converting p x) \<Rightarrow> [(p, x)]
                        | Print (Error_fixing p x) \<Rightarrow> [(p, x)] | _ \<Rightarrow> []) evs)"

text \<open>
  The files on which \<^verbatim>\<open>convert_file\<close> raises: those that cannot be read, and those
  that have a marker and cannot be written.
\<close>

definition convert_raises :: "world \<Rightarrow> path \<Rightarrow> bool" where
  "convert_raises w p =
     (case files w p of None \<Rightarrow> True
      | Some content \<Rightarrow> has_tunit_syntax content \<and> p \<in> readonly w)"

text \<open>Three files: one unreadable, one read-only with a marker, one ordinary.\<close>

definition three_files :: world where
  "three_files =
     \<lparr>files = (\<lambda>q. if q = ''d/B.cs'' then Some ''TUnit''
                    else if q = ''d/C.cs'' then Some ''[Test]'' else None),
      readonly = {''d/B.cs''},
      glob_result = [''d/A.cs'', ''d/B.cs'', ''d/C.cs''],
      trace = []\<rparr>"

text \<open>A text with a marker and a repeated \<^verbatim>\<open>using\<close> line.\<close>

definition repeated_using :: string where
  "repeated_using =
     ''using A;'' @ [nl] @ ''// TUnit'' @ [nl] @ ''using A;'' @ [nl] @ ''class C { }''"

text \<open>
  A \<^verbatim>\<open>using\<close> line other than the one for xUnit, and the lines before the first
  line that starts with \<^verbatim>\<open>namespace \<close>.
\<close>

definition other_using :: "string \<Rightarrow> bool" where
  "other_using line = (startswith line ''using '' \<and> \<not> startswith line ''using Xunit'')"

definition before_namespace :: "string list \<Rightarrow> string list" where
  "before_namespace lines = takeWhile (\<lambda>line. \<not> startswith line ''namespace '') lines"

text \<open>A test file with a marker in which the xUnit directive is commented out.\<close>

definition commented_out :: string where
  "commented_out = ''// using Xunit;'' @ [nl] @ ''[Test]''"

text \<open>A test file with two directives before its namespace.\<close>

definition two_usings :: string where
  "two_usings = ''using System;'' @ [nl] @ ''using System.IO;'' @ [nl] @ [nl]
     @ ''namespace N;'' @ [nl] @ ''using Late;'' @ [nl] @ ''[Test]''"






section \<open>What one call does to the world\<close>

lemma convert_file_cases:
  "convert_file p w =
     (case files w p of
        None \<Rightarrow> (Some IO_error, w\<lparr>trace := trace w @ [Print (Converting p), Read p]\<rparr>)
      | Some content \<Rightarrow>
          if \<not> has_tunit_syntax content
          then (None, w\<lparr>trace := trace w @ [Print (Converting p), Read p, Print (Skipping p)]\<rparr>)
          else if p \<in> readonly w
          then (Some IO_error,
                w\<lparr>trace := trace w @ [Print (Converting p), Read p, Write p (convert_content content)]\<rparr>)
          else (None,
                w\<lparr>files := (files w)(p \<mapsto> convert_content content),
                  trace := trace w @ [Print (Converting p), Read p, Write p (convert_content content),
                                      Print (Converted p)]\<rparr>))"
  by (simp add: convert_file_def read_file_def write_file_def log_def split: option.splits)

lemma fix_file_cases:
  "fix_file p w =
     (case files w p of
        None \<Rightarrow> (Some IO_error, w\<lparr>trace := trace w @ [Read p]\<rparr>)
      | Some original \<Rightarrow>
          if apply_rules fix_final_rules original = original
          then (None, w\<lparr>trace := trace w @ [Read p, Print (No_changes_needed p)]\<rparr>)
          else if p \<in> readonly w
          then (Some IO_error,
                w\<lparr>trace := trace w @ [Read p, Write p (apply_rules fix_final_rules original)]\<rparr>)
          else (None,
                w\<lparr>files := (files w)(p \<mapsto> apply_rules fix_final_rules original),
                  trace := trace w @ [Read p, Write p (apply_rules fix_final_rules original),
                                      Print (Fixed p)]\<rparr>))"
  by (simp add: fix_file_def read_file_def write_file_def log_def Let_def split: option.splits)

lemma tunit_fixed: "convert_content ''TUnit'' = ''TUnit''"
  by code_simp

lemma tunit_marker: "has_tunit_syntax ''TUnit''"
  by code_simp

lemma final_tunit: "apply_rules fix_final_rules ''TUnit'' = ''TUnit''"
  by code_simp

section \<open>Writing back\<close>

text \<open>
  Claim C1 says that a processed file is written back at most once and only if the
  transformed content differs from the original. \<^verbatim>\<open>convert_file\<close> does not compare:
  a file whose only marker is the word \<^verbatim>\<open>TUnit\<close> is converted to itself and written.
\<close>

theorem C1_counterexample:
  "(''T.cs'', ''TUnit'')
     \<in> set (writes (new_events (one_file ''T.cs'' ''TUnit'')
                     (snd (convert_file ''T.cs'' (one_file ''T.cs'' ''TUnit'')))))
   \<and> files (one_file ''T.cs'' ''TUnit'') ''T.cs'' = Some ''TUnit''"
  by (simp add: convert_file_cases new_events_def writes_def one_file_def tunit_fixed tunit_marker)

text \<open>
  Claim C1, amended: one call of \<^verbatim>\<open>fix_file\<close> or \<^verbatim>\<open>convert_file\<close> opens at most one
  file for writing, and only the file it was given. \<^verbatim>\<open>fix_file\<close> writes exactly when
  the file could be read and the rules changed its text; \<^verbatim>\<open>convert_file\<close> writes exactly
  when the file could be read and its text has one of the three markers, whether the
  conversion changed it or not. A call that does not write leaves every file as it was.
\<close>

theorem C1_write_back:
  "length (writes (new_events w (snd (fix_file p w)))) \<le> 1
   \<and> ((q, c) \<in> set (writes (new_events w (snd (fix_file p w)))) \<longleftrightarrow>
        q = p \<and> (\<exists>original. files w p = Some original
                   \<and> c = apply_rules fix_final_rules original \<and> c \<noteq> original))
   \<and> (writes (new_events w (snd (fix_file p w))) = [] \<longrightarrow> files (snd (fix_file p w)) = files w)
   \<and> length (writes (new_events w (snd (convert_file p w)))) \<le> 1
   \<and> ((q, c) \<in> set (writes (new_events w (snd (convert_file p w)))) \<longleftrightarrow>
        q = p \<and> (\<exists>content. files w p = Some content \<and> has_tunit_syntax content
                   \<and> c = convert_content content))
   \<and> (writes (new_events w (snd (convert_file p w))) = []
        \<longrightarrow> files (snd (convert_file p w)) = files w)"
  by (auto simp: fix_file_cases convert_file_cases new_events_def writes_def split: option.splits)

theorem C1_write_back_witness:
  "(''T.cs'', ''TUnit'')
     \<in> set (writes (new_events (one_file ''T.cs'' ''TUnit'')
                     (snd (convert_file ''T.cs'' (one_file ''T.cs'' ''TUnit'')))))
   \<and> writes (new_events (one_file ''T.cs'' ''TUnit'')
                     (snd (fix_file ''T.cs'' (one_file ''T.cs'' ''TUnit'')))) = []
   \<and> files (snd (fix_file ''T.cs'' (one_file ''T.cs'' ''TUnit'')))
       = files (one_file ''T.cs'' ''TUnit'')"
  using C1_write_back [of "one_file ''T.cs'' ''TUnit''" "''T.cs''" "''T.cs''" "''TUnit''"]
  by (simp add: one_file_def tunit_fixed tunit_marker final_tunit fix_file_cases new_events_def
      writes_def)

section \<open>Files without a marker\<close>

lemma convert_file_trace:
  "\<exists>evs. trace (snd (convert_file q w)) = trace w @ evs"
  by (simp add: convert_file_cases split: option.splits)

lemma convert_each_skips:
  assumes "files w p = Some content" and "\<not> has_tunit_syntax content"
  shows "\<exists>evs. trace (convert_each ps w) = trace w @ evs
           \<and> files (convert_each ps w) p = Some content
           \<and> (p \<in> set ps \<longrightarrow> Print (Skipping p) \<in> set evs)
           \<and> (\<forall>c. Write p c \<notin> set evs)"
  using assms
proof (induction ps arbitrary: w)
  case Nil
  then show ?case by simp
next
  case (Cons q ps)
  obtain r w1 where run: "convert_file q w = (r, w1)"
    by (cases "convert_file q w")
  define w2 where "w2 = (case r of None \<Rightarrow> w1 | Some e \<Rightarrow> log (Print (Error_converting q e)) w1)"
  have step: "convert_each (q # ps) w = convert_each ps w2"
    using run by (simp add: w2_def split: option.splits)
  have first: "\<exists>evs. trace w2 = trace w @ evs \<and> files w2 p = Some content
      \<and> (q = p \<longrightarrow> Print (Skipping p) \<in> set evs) \<and> (\<forall>c. Write p c \<notin> set evs)"
    using run Cons.prems
    by (auto simp: convert_file_cases w2_def log_def split: option.splits if_splits)
  then obtain evs1 where e1: "trace w2 = trace w @ evs1" "files w2 p = Some content"
      "q = p \<longrightarrow> Print (Skipping p) \<in> set evs1" "\<forall>c. Write p c \<notin> set evs1"
    by blast
  from Cons.IH [OF e1(2) Cons.prems(2)]
  obtain evs2 where e2: "trace (convert_each ps w2) = trace w2 @ evs2"
      "files (convert_each ps w2) p = Some content"
      "p \<in> set ps \<longrightarrow> Print (Skipping p) \<in> set evs2" "\<forall>c. Write p c \<notin> set evs2"
    by blast
  show ?case
    unfolding step using e1 e2
    by (intro exI [of _ "evs1 @ evs2"]) auto
qed

lemma mem_writes: "(p, c) \<in> set (writes evs) \<longleftrightarrow> Write p c \<in> set evs"
  by (induction evs) (auto simp: writes_def split: event.splits)

text \<open>
  Claim C5: a candidate file that can be read and whose text has none of the three markers
  \<^verbatim>\<open>[Test]\<close>, \<^verbatim>\<open>await Assert.That\<close>, \<^verbatim>\<open>TUnit\<close> has the same text
  after the run of \<^verbatim>\<open>main\<close>, was never opened for writing, and was reported as
  skipped.
\<close>

theorem C5_no_marker_skipped:
  assumes "files w p = Some content"
    and "\<not> contains ''[Test]'' content"
    and "\<not> contains ''await Assert.That'' content"
    and "\<not> contains ''TUnit'' content"
    and "p \<in> set (glob_result w)" and "basename p \<notin> set skip_files"
  shows "files (convert_main w) p = Some content
     \<and> Print (Skipping p) \<in> set (new_events w (convert_main w))
     \<and> (p, c) \<notin> set (writes (new_events w (convert_main w)))"
proof -
  have no: "\<not> has_tunit_syntax content"
    using assms(2-4) by (simp add: has_tunit_syntax_def)
  define fs where "fs = cs_files (glob_result w)"
  define w1 where "w1 = log (Print (Converting_files (length fs))) w"
  have mem: "p \<in> set fs"
    using assms(5,6) by (simp add: fs_def cs_files_def)
  have f1: "files w1 p = Some content"
    using assms(1) by (simp add: w1_def log_def)
  from convert_each_skips [OF f1 no, of fs]
  obtain evs where e: "trace (convert_each fs w1) = trace w1 @ evs"
      "files (convert_each fs w1) p = Some content"
      "p \<in> set fs \<longrightarrow> Print (Skipping p) \<in> set evs" "\<forall>c. Write p c \<notin> set evs"
    by blast
  have main: "convert_main w = log (Print Conversion_complete) (convert_each fs w1)"
    by (simp add: convert_main_def fs_def w1_def Let_def)
  have tr: "new_events w (convert_main w)
      = Print (Converting_files (length fs)) # evs @ [Print Conversion_complete]"
    by (simp add: main new_events_def log_def e(1)) (simp add: w1_def log_def)
  show ?thesis
    using e mem by (simp add: tr mem_writes) (simp add: main log_def)
qed

lemma base_C: "basename ''d/C.cs'' \<notin> set skip_files"
  by (simp add: basename_def skip_files_def)

theorem C5_no_marker_skipped_witness:
  "files (convert_main (one_file ''d/C.cs'' ''class C { }'')) ''d/C.cs'' = Some ''class C { }''
   \<and> Print (Skipping ''d/C.cs'')
       \<in> set (new_events (one_file ''d/C.cs'' ''class C { }'')
               (convert_main (one_file ''d/C.cs'' ''class C { }'')))
   \<and> (''d/C.cs'', ''x'') \<notin> set (writes (new_events (one_file ''d/C.cs'' ''class C { }'')
               (convert_main (one_file ''d/C.cs'' ''class C { }''))))"
  using C5_no_marker_skipped [of "one_file ''d/C.cs'' ''class C { }''" "''d/C.cs''" "''class C { }''" "''x''"]
  by (simp add: one_file_def base_C)

section \<open>Errors and the batch\<close>

lemma started_append [simp]: "started (a @ b) = started a @ started b"
  by (simp add: started_def)

lemma reads_append [simp]: "reads (a @ b) = reads a @ reads b"
  by (simp add: reads_def)

lemma reported_append [simp]: "reported (a @ b) = reported a @ reported b"
  by (simp add: reported_def)

lemma new_events_append: "trace w' = trace w @ evs \<Longrightarrow> new_events w w' = evs"
  by (simp add: new_events_def)

text \<open>One turn of the loop of \<^verbatim>\<open>main\<close>: the call and the handler.\<close>

lemma convert_turn:
  assumes "w2 = (case convert_file q w of (None, w1) \<Rightarrow> w1
                 | (Some e, w1) \<Rightarrow> log (Print (Error_converting q e)) w1)"
  shows "\<exists>evs. trace w2 = trace w @ evs \<and> started evs = [q] \<and> reads evs = [q]
           \<and> reported evs = (if convert_raises w q then [(q, IO_error)] else [])
           \<and> (\<forall>p. convert_raises w2 p = convert_raises w p)
           \<and> (\<forall>p. convert_raises w p \<longrightarrow> files w2 p = files w p)"
  using assms
  by (auto simp: convert_file_cases log_def started_def reads_def reported_def convert_raises_def
      split: option.splits)

lemma convert_each_turns:
  "\<exists>evs. trace (convert_each ps w) = trace w @ evs \<and> started evs = ps \<and> reads evs = ps
     \<and> reported evs = map (\<lambda>p. (p, IO_error)) (filter (convert_raises w) ps)
     \<and> (\<forall>p. convert_raises w p \<longrightarrow> files (convert_each ps w) p = files w p)"
proof (induction ps arbitrary: w)
  case Nil
  then show ?case by (simp add: started_def reads_def reported_def)
next
  case (Cons q ps)
  define w2 where "w2 = (case convert_file q w of (None, w1) \<Rightarrow> w1
                 | (Some e, w1) \<Rightarrow> log (Print (Error_converting q e)) w1)"
  have step: "convert_each (q # ps) w = convert_each ps w2"
    by (simp add: w2_def split: prod.splits option.splits)
  from convert_turn [OF w2_def]
  obtain evs1 where e1: "trace w2 = trace w @ evs1" "started evs1 = [q]" "reads evs1 = [q]"
      "reported evs1 = (if convert_raises w q then [(q, IO_error)] else [])"
      "\<forall>p. convert_raises w2 p = convert_raises w p"
      "\<forall>p. convert_raises w p \<longrightarrow> files w2 p = files w p"
    by blast
  from Cons.IH [of w2]
  obtain evs2 where e2: "trace (convert_each ps w2) = trace w2 @ evs2" "started evs2 = ps"
      "reads evs2 = ps"
      "reported evs2 = map (\<lambda>p. (p, IO_error)) (filter (convert_raises w2) ps)"
      "\<forall>p. convert_raises w2 p \<longrightarrow> files (convert_each ps w2) p = files w2 p"
    by blast
  have same: "convert_raises w2 = convert_raises w"
    using e1(5) by auto
  show ?case
    unfolding step using e1 e2
    by (intro exI [of _ "evs1 @ evs2"]) (simp add: same)
qed

lemma fix_remaining_raises: "apply_checked fix_remaining_rules content = Inl Re_error"
  by (simp add: fix_remaining_rules_def)

lemma fix_remaining_assertions_cases:
  "fix_remaining_assertions p w =
     (Some (if files w p = None then IO_error else Re_error),
      w\<lparr>trace := trace w @ [Print (Fixing p), Read p]\<rparr>)"
  by (simp add: fix_remaining_assertions_def read_file_def log_def fix_remaining_raises
      split: option.splits)

lemma fix_remaining_each_turns:
  "fix_remaining_each ps w =
     w\<lparr>trace := trace w @ concat (map (\<lambda>p. [Print (Fixing p), Read p,
         Print (Error_fixing p (if files w p = None then IO_error else Re_error))]) ps)\<rparr>"
  by (induction ps arbitrary: w) (simp_all add: fix_remaining_assertions_cases log_def)

lemma fix_remaining_events:
  "started (concat (map (\<lambda>p. [Print (Fixing p), Read p, Print (Error_fixing p (x p))]) ps)) = ps"
  "reads (concat (map (\<lambda>p. [Print (Fixing p), Read p, Print (Error_fixing p (x p))]) ps)) = ps"
  "reported (concat (map (\<lambda>p. [Print (Fixing p), Read p, Print (Error_fixing p (x p))]) ps))
     = map (\<lambda>p. (p, x p)) ps"
  by (induction ps) (simp_all add: started_def reads_def reported_def)

text \<open>
  Claim C3: in \<^verbatim>\<open>main\<close> of the conversion script and of
  fix-remaining-xunit-issues.py, an exception raised while a candidate file is processed is
  caught and reported for that file, and the loop goes on. The run starts on every
  candidate, in order, and reads each exactly once (no retry); it reports an error for
  exactly the candidates that raise, once each; it ends with its closing message; and a
  file on which the conversion raises keeps its text. In the second script every readable
  file raises too (\<^verbatim>\<open>re.error\<close>, see \<open>fix_remaining_rules\<close>), is
  reported, and no file changes.
\<close>

theorem C3_errors_do_not_stop_the_batch:
  "started (new_events w (convert_main w)) = cs_files (glob_result w)
   \<and> reads (new_events w (convert_main w)) = cs_files (glob_result w)
   \<and> reported (new_events w (convert_main w))
       = map (\<lambda>p. (p, IO_error)) (filter (convert_raises w) (cs_files (glob_result w)))
   \<and> last (new_events w (convert_main w)) = Print Conversion_complete
   \<and> (convert_raises w p \<longrightarrow> files (convert_main w) p = files w p)
   \<and> started (new_events w (fix_remaining_main w)) = cs_files (glob_result w)
   \<and> reads (new_events w (fix_remaining_main w)) = cs_files (glob_result w)
   \<and> reported (new_events w (fix_remaining_main w))
       = map (\<lambda>p. (p, if files w p = None then IO_error else Re_error)) (cs_files (glob_result w))
   \<and> last (new_events w (fix_remaining_main w)) = Print Fixes_complete
   \<and> files (fix_remaining_main w) = files w"
proof -
  define fs where "fs = cs_files (glob_result w)"
  define w1 where "w1 = log (Print (Converting_files (length fs))) w"
  from convert_each_turns [of fs w1]
  obtain evs where e: "trace (convert_each fs w1) = trace w1 @ evs" "started evs = fs"
      "reads evs = fs"
      "reported evs = map (\<lambda>p. (p, IO_error)) (filter (convert_raises w1) fs)"
      "\<forall>p. convert_raises w1 p \<longrightarrow> files (convert_each fs w1) p = files w1 p"
    by blast
  have same: "convert_raises w1 = convert_raises w" "files w1 = files w"
    by (auto simp: w1_def log_def convert_raises_def fun_eq_iff split: option.splits)
  have main: "convert_main w = log (Print Conversion_complete) (convert_each fs w1)"
    by (simp add: convert_main_def fs_def w1_def Let_def)
  have tr: "new_events w (convert_main w)
      = Print (Converting_files (length fs)) # evs @ [Print Conversion_complete]"
    by (rule new_events_append) (simp add: main log_def e(1), simp add: w1_def log_def)
  have conv: "started (new_events w (convert_main w)) = fs"
     "reads (new_events w (convert_main w)) = fs"
     "reported (new_events w (convert_main w))
       = map (\<lambda>p. (p, IO_error)) (filter (convert_raises w) fs)"
     "last (new_events w (convert_main w)) = Print Conversion_complete"
    using e(2-4) unfolding tr same
    by (simp_all add: started_def reads_def reported_def)
  have keep: "convert_raises w p \<longrightarrow> files (convert_main w) p = files w p"
    using e(5) by (simp add: main log_def same)
  define v1 where "v1 = log (Print (Fixing_files (length fs))) w"
  have rmain: "fix_remaining_main w = log (Print Fixes_complete) (fix_remaining_each fs v1)"
    by (simp add: fix_remaining_main_def fs_def v1_def Let_def)
  have rtr: "new_events w (fix_remaining_main w)
      = Print (Fixing_files (length fs))
        # concat (map (\<lambda>p. [Print (Fixing p), Read p,
             Print (Error_fixing p (if files w p = None then IO_error else Re_error))]) fs)
        @ [Print Fixes_complete]"
    by (rule new_events_append)
      (simp add: rmain fix_remaining_each_turns log_def v1_def)
  have rem: "started (new_events w (fix_remaining_main w)) = fs"
     "reads (new_events w (fix_remaining_main w)) = fs"
     "reported (new_events w (fix_remaining_main w))
       = map (\<lambda>p. (p, if files w p = None then IO_error else Re_error)) fs"
     "last (new_events w (fix_remaining_main w)) = Print Fixes_complete"
    unfolding rtr
    using fix_remaining_events [of "\<lambda>p. if files w p = None then IO_error else Re_error" fs]
    by (simp_all add: started_def reads_def reported_def)
  have rkeep: "files (fix_remaining_main w) = files w"
    by (simp add: rmain fix_remaining_each_turns log_def v1_def)
  show ?thesis
    using conv keep rem rkeep unfolding fs_def by blast
qed


lemma three_files_candidates:
  "cs_files (glob_result three_files) = [''d/A.cs'', ''d/B.cs'', ''d/C.cs'']"
  by (simp add: three_files_def cs_files_def basename_def skip_files_def)

lemma three_files_raises:
  "convert_raises three_files ''d/A.cs''" "convert_raises three_files ''d/B.cs''"
  "\<not> convert_raises three_files ''d/C.cs''"
  by (simp_all add: three_files_def convert_raises_def tunit_marker)

theorem C3_errors_do_not_stop_the_batch_witness:
  "started (new_events three_files (convert_main three_files)) = [''d/A.cs'', ''d/B.cs'', ''d/C.cs'']
   \<and> reported (new_events three_files (convert_main three_files))
       = [(''d/A.cs'', IO_error), (''d/B.cs'', IO_error)]
   \<and> files (convert_main three_files) ''d/B.cs'' = Some ''TUnit''
   \<and> reported (new_events three_files (fix_remaining_main three_files))
       = [(''d/A.cs'', IO_error), (''d/B.cs'', Re_error), (''d/C.cs'', Re_error)]"
  using C3_errors_do_not_stop_the_batch [of three_files "''d/B.cs''"]
  by (simp add: three_files_candidates three_files_raises) (simp add: three_files_def)

section \<open>The candidate files\<close>

text \<open>
  Claim C2 says that no file whose base name is outside the exclusion set is filtered out.
  fix-xunit-warnings.py tests whether a skipped name occurs anywhere in the path, not
  whether it is the base name: \<^verbatim>\<open>MyTestSetup.cs\<close> is not in the exclusion set, yet
  \<open>test_files\<close> drops it, where \<open>cs_files\<close> of the two \<^verbatim>\<open>main\<close> functions
  keeps it.
\<close>

theorem C2_substring_exclusion:
  "basename ''/home/henning/Workbench/MCP/MCP.Tests/MyTestSetup.cs'' = ''MyTestSetup.cs''
   \<and> ''MyTestSetup.cs'' \<notin> set skip_files
   \<and> test_files [''/home/henning/Workbench/MCP/MCP.Tests/MyTestSetup.cs''] = []
   \<and> cs_files [''/home/henning/Workbench/MCP/MCP.Tests/MyTestSetup.cs'']
       = [''/home/henning/Workbench/MCP/MCP.Tests/MyTestSetup.cs'']"
  by (simp add: basename_def skip_files_def test_files_def cs_files_def)

text \<open>The filter of the two \<^verbatim>\<open>main\<close> functions is the one the claim describes.\<close>

lemma cs_files_exact:
  "set (cs_files globbed) = {f \<in> set globbed. basename f \<notin> set skip_files}"
  by (auto simp: cs_files_def)

section \<open>Facts about the text primitives\<close>

lemma startswith_iff: "startswith s p \<longleftrightarrow> (\<exists>t. s = p @ t)"
  by (induction s p rule: startswith.induct) auto


text \<open>\<open>test_files\<close> drops exactly the paths in which a skipped name occurs anywhere.\<close>

lemma test_files_exact:
  "set (test_files globbed) = {f \<in> set globbed. \<forall>skip \<in> set skip_files. \<not> contains skip f}"
  by (auto simp: test_files_def list_ex_iff)

section \<open>The output depends on the content alone\<close>

lemma convert_turn_files:
  assumes "w2 = (case convert_file q w of (None, w1) \<Rightarrow> w1
                 | (Some e, w1) \<Rightarrow> log (Print (Error_converting q e)) w1)"
  shows "readonly w2 = readonly w"
    and "q \<noteq> p \<Longrightarrow> files w2 p = files w p"
    and "files w q = Some content \<Longrightarrow> q \<notin> readonly w \<Longrightarrow>
         files w2 q = Some (if has_tunit_syntax content then convert_content content else content)"
  using assms
  by (auto simp: convert_file_cases log_def split: option.splits)

lemma convert_each_other:
  "p \<notin> set ps \<Longrightarrow> files (convert_each ps w) p = files w p \<and> readonly (convert_each ps w) = readonly w"
proof (induction ps arbitrary: w)
  case Nil
  then show ?case by simp
next
  case (Cons q ps)
  define w2 where "w2 = (case convert_file q w of (None, w1) \<Rightarrow> w1
                 | (Some e, w1) \<Rightarrow> log (Print (Error_converting q e)) w1)"
  have step: "convert_each (q # ps) w = convert_each ps w2"
    by (simp add: w2_def split: prod.splits option.splits)
  have "q \<noteq> p" "p \<notin> set ps" using Cons.prems by auto
  then show ?case
    unfolding step using Cons.IH [of w2] convert_turn_files(1,2) [OF w2_def] by simp
qed

lemma convert_each_result:
  assumes "distinct ps" and "p \<in> set ps" and "files w p = Some content" and "p \<notin> readonly w"
  shows "files (convert_each ps w) p
           = Some (if has_tunit_syntax content then convert_content content else content)"
  using assms
proof (induction ps arbitrary: w)
  case Nil
  then show ?case by simp
next
  case (Cons q ps)
  define w2 where "w2 = (case convert_file q w of (None, w1) \<Rightarrow> w1
                 | (Some e, w1) \<Rightarrow> log (Print (Error_converting q e)) w1)"
  have step: "convert_each (q # ps) w = convert_each ps w2"
    by (simp add: w2_def split: prod.splits option.splits)
  show ?case
  proof (cases "q = p")
    case True
    then have "p \<notin> set ps" using Cons.prems(1) by simp
    then have "files (convert_each ps w2) p = files w2 p"
      by (simp add: convert_each_other)
    then show ?thesis
      unfolding step using convert_turn_files(3) [OF w2_def, of content] Cons.prems True by simp
  next
    case False
    then have "p \<in> set ps" "distinct ps" using Cons.prems by auto
    moreover have "files w2 p = Some content" "p \<notin> readonly w2"
      using convert_turn_files(1,2) [OF w2_def] False Cons.prems by auto
    ultimately show ?thesis
      unfolding step using Cons.IH by blast
  qed
qed

lemma fix_turn_files:
  assumes "w2 = (case fix_file q w of (None, w1) \<Rightarrow> w1
                 | (Some e, w1) \<Rightarrow> log (Print (Error_fixing q e)) w1)"
  shows "readonly w2 = readonly w"
    and "q \<noteq> p \<Longrightarrow> files w2 p = files w p"
    and "files w q = Some original \<Longrightarrow> q \<notin> readonly w \<Longrightarrow>
         files w2 q = Some (apply_rules fix_final_rules original)"
  using assms
  by (auto simp: fix_file_cases log_def split: option.splits)

lemma fix_final_each_other:
  "p \<notin> set ps \<Longrightarrow> files (fix_final_each ps w) p = files w p
     \<and> readonly (fix_final_each ps w) = readonly w"
proof (induction ps arbitrary: w)
  case Nil
  then show ?case by simp
next
  case (Cons q ps)
  define w2 where "w2 = (case fix_file q w of (None, w1) \<Rightarrow> w1
                 | (Some e, w1) \<Rightarrow> log (Print (Error_fixing q e)) w1)"
  have step: "fix_final_each (q # ps) w = fix_final_each ps w2"
    by (simp add: w2_def split: prod.splits option.splits)
  have "q \<noteq> p" "p \<notin> set ps" using Cons.prems by auto
  then show ?case
    unfolding step using Cons.IH [of w2] fix_turn_files(1,2) [OF w2_def] by simp
qed

lemma fix_final_each_result:
  assumes "distinct ps" and "p \<in> set ps" and "files w p = Some original" and "p \<notin> readonly w"
  shows "files (fix_final_each ps w) p = Some (apply_rules fix_final_rules original)"
  using assms
proof (induction ps arbitrary: w)
  case Nil
  then show ?case by simp
next
  case (Cons q ps)
  define w2 where "w2 = (case fix_file q w of (None, w1) \<Rightarrow> w1
                 | (Some e, w1) \<Rightarrow> log (Print (Error_fixing q e)) w1)"
  have step: "fix_final_each (q # ps) w = fix_final_each ps w2"
    by (simp add: w2_def split: prod.splits option.splits)
  show ?case
  proof (cases "q = p")
    case True
    then have "p \<notin> set ps" using Cons.prems(1) by simp
    then have "files (fix_final_each ps w2) p = files w2 p"
      by (simp add: fix_final_each_other)
    then show ?thesis
      unfolding step using fix_turn_files(3) [OF w2_def, of original] Cons.prems True by simp
  next
    case False
    then have "p \<in> set ps" "distinct ps" using Cons.prems by auto
    moreover have "files w2 p = Some original" "p \<notin> readonly w2"
      using fix_turn_files(1,2) [OF w2_def] False Cons.prems by auto
    ultimately show ?thesis
      unfolding step using Cons.IH by blast
  qed
qed

lemma fix_final_files_distinct: "distinct fix_final_files"
  by (simp add: fix_final_files_def)

text \<open>
  Claim C8: two runs that find the same text in a file produce the same text in it. For
  the conversion script and for fix-final-assertions.py, whatever else the two worlds hold
  (other files, their order, the trace so far), a writable candidate with the text
  \<open>content\<close> ends with the text a fixed function gives for \<open>content\<close>: the rules of
  the script applied once each in the order of the source. The candidates are taken to be
  pairwise different, as the paths \<^verbatim>\<open>glob.glob\<close> returns are.
\<close>

theorem C8_same_content_same_output:
  assumes "files w p = Some content" and "files w' p = Some content"
    and "p \<notin> readonly w" and "p \<notin> readonly w'"
  shows "(p \<in> set (cs_files (glob_result w)) \<and> distinct (cs_files (glob_result w))
          \<and> p \<in> set (cs_files (glob_result w')) \<and> distinct (cs_files (glob_result w'))
          \<longrightarrow> files (convert_main w) p = files (convert_main w') p
              \<and> files (convert_main w) p
                  = Some (if has_tunit_syntax content then convert_content content else content))
     \<and> (p \<in> set fix_final_files
          \<longrightarrow> files (fix_final_script w) p = files (fix_final_script w') p
              \<and> files (fix_final_script w) p = Some (apply_rules fix_final_rules content))"
proof -
  have conv: "files (convert_main v) p
      = Some (if has_tunit_syntax content then convert_content content else content)"
    if "files v p = Some content" "p \<notin> readonly v" "p \<in> set (cs_files (glob_result v))"
      "distinct (cs_files (glob_result v))" for v
    using convert_each_result [OF that(4,3), of "log (Print (Converting_files
        (length (cs_files (glob_result v))))) v" content] that(1,2)
    by (simp add: convert_main_def Let_def log_def)
  have fin: "files (fix_final_script v) p = Some (apply_rules fix_final_rules content)"
    if "files v p = Some content" "p \<notin> readonly v" "p \<in> set fix_final_files" for v
    using fix_final_each_result [OF fix_final_files_distinct that(3,1,2)]
    by (simp add: fix_final_script_def log_def)
  show ?thesis
    using conv [of w] conv [of w'] fin [of w] fin [of w'] assms by simp
qed


lemma convert_test: "convert_content ''[Test]'' = ''using Xunit;'' @ [nl] @ ''[Fact]''"
  by code_simp

lemma test_marker: "has_tunit_syntax ''[Test]''"
  by code_simp

lemma final_count:
  "apply_rules fix_final_rules ''Assert.Equal(0, xs.Count);'' = ''Assert.Empty(xs);''"
  by code_simp

lemma one_file_candidates: "cs_files (glob_result (one_file ''d/C.cs'' c)) = [''d/C.cs'']"
  by (simp add: one_file_def cs_files_def basename_def skip_files_def)

lemma three_files_C:
  "files three_files ''d/C.cs'' = Some ''[Test]''" "''d/C.cs'' \<notin> readonly three_files"
  by (simp_all add: three_files_def)

lemma one_file_file:
  "files (one_file p c) p = Some c" "p \<notin> readonly (one_file p c)"
  by (simp_all add: one_file_def)

theorem C8_same_content_same_output_witness:
  "files (convert_main (one_file ''d/C.cs'' ''[Test]'')) ''d/C.cs''
     = files (convert_main three_files) ''d/C.cs''
   \<and> files (convert_main (one_file ''d/C.cs'' ''[Test]'')) ''d/C.cs''
       = Some (''using Xunit;'' @ [nl] @ ''[Fact]'')
   \<and> files (fix_final_script (one_file ''/home/henning/Workbench/MCP/MCP.Tests/Tests2.cs''
                ''Assert.Equal(0, xs.Count);''))
         ''/home/henning/Workbench/MCP/MCP.Tests/Tests2.cs''
       = Some ''Assert.Empty(xs);''"
proof -
  have a: "files (convert_main (one_file ''d/C.cs'' ''[Test]'')) ''d/C.cs''
       = files (convert_main three_files) ''d/C.cs''
     \<and> files (convert_main (one_file ''d/C.cs'' ''[Test]'')) ''d/C.cs''
       = Some (''using Xunit;'' @ [nl] @ ''[Fact]'')"
    using C8_same_content_same_output [OF one_file_file(1) three_files_C(1) one_file_file(2)
        three_files_C(2)]
    by (auto simp: one_file_candidates three_files_candidates convert_test test_marker)
  have b: "files (fix_final_script (one_file ''/home/henning/Workbench/MCP/MCP.Tests/Tests2.cs''
                ''Assert.Equal(0, xs.Count);''))
         ''/home/henning/Workbench/MCP/MCP.Tests/Tests2.cs''
       = Some ''Assert.Empty(xs);''"
    using C8_same_content_same_output [of
        "one_file ''/home/henning/Workbench/MCP/MCP.Tests/Tests2.cs'' ''Assert.Equal(0, xs.Count);''"
        "''/home/henning/Workbench/MCP/MCP.Tests/Tests2.cs''" "''Assert.Equal(0, xs.Count);''"
        "one_file ''/home/henning/Workbench/MCP/MCP.Tests/Tests2.cs'' ''Assert.Equal(0, xs.Count);''",
        OF one_file_file(1) one_file_file(1) one_file_file(2) one_file_file(2)]
    by (simp add: final_count fix_final_files_def)
  show ?thesis
    using a b by auto
qed

section \<open>Lines: \<open>split\<close> and \<open>join\<close>\<close>

lemma split_not_Nil [simp]: "split d s \<noteq> []"
  by (induction s) (auto split: list.splits)

lemma split_no_sep: "l \<in> set (split d s) \<Longrightarrow> d \<notin> set l"
proof (induction s arbitrary: l)
  case Nil
  then show ?case by simp
next
  case (Cons c cs)
  show ?case
  proof (cases "c = d")
    case True
    then show ?thesis using Cons by auto
  next
    case False
    obtain x xs where sp: "split d cs = x # xs"
      by (cases "split d cs") auto
    then have "l = c # x \<or> l \<in> set xs"
      using Cons.prems False by simp
    then show ?thesis
      using Cons.IH [of x] Cons.IH [of l] sp False by auto
  qed
qed

lemma join_split: "join d (split d s) = s"
proof (induction s)
  case Nil
  then show ?case by simp
next
  case (Cons c cs)
  obtain x xs where sp: "split d cs = x # xs"
    by (cases "split d cs") auto
  show ?case
    using Cons sp by (cases xs) auto
qed

lemma split_append_sep:
  "d \<notin> set l \<Longrightarrow> split d (l @ d # s) = l # split d s"
  by (induction l) (auto split: list.splits)

lemma split_no_sep_id: "d \<notin> set l \<Longrightarrow> split d l = [l]"
  by (induction l) (auto split: list.splits)

lemma split_join:
  "ls \<noteq> [] \<Longrightarrow> (\<forall>l\<in>set ls. d \<notin> set l) \<Longrightarrow> split d (join d ls) = ls"
proof (induction d ls rule: join.induct)
  case (1 d)
  then show ?case by simp
next
  case (2 d l)
  then show ?case by (simp add: split_no_sep_id)
next
  case (3 d l l' ls)
  then show ?case by (simp add: split_append_sep)
qed

section \<open>Repeated \<^verbatim>\<open>using\<close> lines\<close>

text \<open>
  The loop of step 7 keeps the line at index \<open>i\<close> exactly when it does not start with
  \<^verbatim>\<open>using \<close>, or is neither in \<open>seen\<close> nor among the lines before it.
\<close>

lemma filter_usings_general:
  "filter_usings ls seen =
     map ((!) ls) (filter (\<lambda>i. \<not> startswith (ls ! i) ''using ''
                          \<or> (ls ! i \<notin> seen \<and> ls ! i \<notin> set (take i ls))) [0..<length ls])"
proof (induction ls arbitrary: seen)
  case Nil
  then show ?case by simp
next
  case (Cons l ls)
  have upt: "[0..<length (l # ls)] = 0 # map Suc [0..<length ls]"
    by (simp add: upt_conv_Cons map_Suc_upt del: upt_Suc)
  show ?case
    unfolding upt
    by (auto simp: Cons.IH filter_map comp_def
        intro!: arg_cong [where f = "map ((!) ls)"] filter_cong)
qed


lemma filter_usings_others:
  "filter (\<lambda>l. \<not> startswith l ''using '') (filter_usings ls seen)
     = filter (\<lambda>l. \<not> startswith l ''using '') ls"
  by (induction ls arbitrary: seen) auto

lemma filter_usings_fresh:
  "set (filter (\<lambda>l. startswith l ''using '') (filter_usings ls seen)) \<inter> seen = {}"
  by (induction ls arbitrary: seen) auto

lemma filter_usings_distinct:
  "distinct (filter (\<lambda>l. startswith l ''using '') (filter_usings ls seen))"
proof (induction ls arbitrary: seen)
  case Nil
  then show ?case by simp
next
  case (Cons l ls)
  show ?case
    using Cons.IH filter_usings_fresh [of ls "insert l seen"] by auto
qed

lemma filter_usings_not_Nil: "ls \<noteq> [] \<Longrightarrow> filter_usings ls {} \<noteq> []"
  by (cases ls) auto

lemma filter_usings_subset: "set (filter_usings ls seen) \<subseteq> set ls"
  by (induction ls arbitrary: seen) auto

lemma lines_of_convert_content:
  "split nl (convert_content content) = filter_usings (split nl (steps_1_to_6 content)) {}"
  unfolding convert_content_def
proof (rule split_join)
  show "filter_usings (split nl (steps_1_to_6 content)) {} \<noteq> []"
    by (simp add: filter_usings_not_Nil)
  show "\<forall>l\<in>set (filter_usings (split nl (steps_1_to_6 content)) {}). nl \<notin> set l"
    using filter_usings_subset split_no_sep by blast
qed

text \<open>
  Claim C9: in the content the conversion writes, no line that starts with
  \<^verbatim>\<open>using \<close> occurs twice. The lines written are the lines after step 6 without
  every \<^verbatim>\<open>using\<close> line that has occurred before, so of each such line the first
  occurrence stays; the other lines are all there, in the same order.
\<close>

theorem C9_using_lines_once:
  "distinct (filter (\<lambda>l. startswith l ''using '') (split nl (convert_content content)))
   \<and> split nl (convert_content content)
       = map ((!) (split nl (steps_1_to_6 content)))
           (filter (\<lambda>i. \<not> startswith (split nl (steps_1_to_6 content) ! i) ''using ''
                        \<or> split nl (steps_1_to_6 content) ! i
                            \<notin> set (take i (split nl (steps_1_to_6 content))))
              [0..<length (split nl (steps_1_to_6 content))])
   \<and> filter (\<lambda>l. \<not> startswith l ''using '') (split nl (convert_content content))
       = filter (\<lambda>l. \<not> startswith l ''using '') (split nl (steps_1_to_6 content))"
proof (intro conjI)
  show "distinct (filter (\<lambda>l. startswith l ''using '') (split nl (convert_content content)))"
    by (simp only: lines_of_convert_content filter_usings_distinct)
  show "split nl (convert_content content)
       = map ((!) (split nl (steps_1_to_6 content)))
           (filter (\<lambda>i. \<not> startswith (split nl (steps_1_to_6 content) ! i) ''using ''
                        \<or> split nl (steps_1_to_6 content) ! i
                            \<notin> set (take i (split nl (steps_1_to_6 content))))
              [0..<length (split nl (steps_1_to_6 content))])"
    unfolding lines_of_convert_content
    by (subst filter_usings_general) simp
  show "filter (\<lambda>l. \<not> startswith l ''using '') (split nl (convert_content content))
       = filter (\<lambda>l. \<not> startswith l ''using '') (split nl (steps_1_to_6 content))"
    by (simp only: lines_of_convert_content filter_usings_others)
qed

lemma repeated_using_lines:
  "split nl (steps_1_to_6 repeated_using)
     = [''using A;'', ''// TUnit'', ''using A;'', ''class C { }'']"
  by code_simp

lemma upt_4: "[0..<4] = [0, 1, 2, 3]"
  by code_simp

theorem C9_using_lines_once_witness:
  "split nl (convert_content repeated_using) = [''using A;'', ''// TUnit'', ''class C { }'']
   \<and> distinct (filter (\<lambda>l. startswith l ''using '') (split nl (convert_content repeated_using)))"
  using C9_using_lines_once [of repeated_using]
  by (simp add: repeated_using_lines upt_4)

section \<open>The xUnit directive\<close>

lemma using_not_namespace: "startswith line ''using '' \<Longrightarrow> \<not> startswith line ''namespace ''"
  by (cases line) auto

lemma shift_later:
  assumes "\<forall>j. k \<le> j \<and> j < n \<longrightarrow> \<not> P (ls ! j)"
  shows "\<forall>j. Suc k \<le> j \<and> j < Suc n \<longrightarrow> \<not> P ((l # ls) ! j)"
proof (intro allI impI)
  fix j
  assume "Suc k \<le> j \<and> j < Suc n"
  then obtain j' where "j = Suc j'" "k \<le> j'" "j' < n"
    by (cases j) auto
  then show "\<not> P ((l # ls) ! j)"
    using assms by simp
qed

lemma find_insert_index_place:
  "(find_insert_index ls i ins = ins \<and> (\<forall>l\<in>set (before_namespace ls). \<not> other_using l))
   \<or> (\<exists>k. find_insert_index ls i ins = i + k \<and> 0 < k \<and> k \<le> length (before_namespace ls)
          \<and> other_using (ls ! (k - 1))
          \<and> (\<forall>j. k \<le> j \<and> j < length (before_namespace ls) \<longrightarrow> \<not> other_using (ls ! j)))"
proof (induction ls arbitrary: i ins)
  case Nil
  then show ?case by (simp add: before_namespace_def)
next
  case (Cons l ls)
  show ?case
  proof (cases "other_using l")
    case True
    then have nons: "\<not> startswith l ''namespace ''"
      by (simp add: other_using_def using_not_namespace)
    have pre: "before_namespace (l # ls) = l # before_namespace ls"
      using nons by (simp add: before_namespace_def)
    have run: "find_insert_index (l # ls) i ins = find_insert_index ls (i + 1) (i + 1)"
      using True by (auto simp: other_using_def)
    from Cons.IH [of "i + 1" "i + 1"]
    consider (none) "find_insert_index ls (i + 1) (i + 1) = i + 1"
        "\<forall>l\<in>set (before_namespace ls). \<not> other_using l"
      | (some) k where "find_insert_index ls (i + 1) (i + 1) = i + 1 + k" "0 < k"
        "k \<le> length (before_namespace ls)" "other_using (ls ! (k - 1))"
        "\<forall>j. k \<le> j \<and> j < length (before_namespace ls) \<longrightarrow> \<not> other_using (ls ! j)"
      by blast
    then show ?thesis
    proof cases
      case none
      have later: "\<not> other_using (ls ! j)" if "j < length (before_namespace ls)" for j
      proof -
        have "before_namespace ls ! j \<in> set (before_namespace ls)"
          using that by simp
        moreover have "before_namespace ls ! j = ls ! j"
          using that unfolding before_namespace_def by (rule takeWhile_nth)
        ultimately show ?thesis using none(2) by auto
      qed
      have "find_insert_index (l # ls) i ins = i + 1 \<and> (0::nat) < 1
          \<and> 1 \<le> length (before_namespace (l # ls)) \<and> other_using ((l # ls) ! (1 - 1))
          \<and> (\<forall>j. 1 \<le> j \<and> j < length (before_namespace (l # ls))
                \<longrightarrow> \<not> other_using ((l # ls) ! j))"
        using run none(1) True later by (auto simp: pre nth_Cons')
      then show ?thesis by blast
    next
      case some
      have "find_insert_index (l # ls) i ins = i + Suc k \<and> 0 < Suc k
          \<and> Suc k \<le> length (before_namespace (l # ls)) \<and> other_using ((l # ls) ! (Suc k - 1))
          \<and> (\<forall>j. Suc k \<le> j \<and> j < length (before_namespace (l # ls))
                \<longrightarrow> \<not> other_using ((l # ls) ! j))"
        using run some(1-4) shift_later [OF some(5), of l] by (simp add: pre nth_Cons')
      then show ?thesis by blast
    qed
  next
    case False
    show ?thesis
    proof (cases "startswith l ''namespace ''")
      case True
      then show ?thesis
        using False by (auto simp: before_namespace_def other_using_def)
    next
      case nons: False
      have pre: "before_namespace (l # ls) = l # before_namespace ls"
        using nons by (simp add: before_namespace_def)
      have run: "find_insert_index (l # ls) i ins = find_insert_index ls (i + 1) ins"
        using False nons by (auto simp: other_using_def)
      from Cons.IH [of "i + 1" ins]
      consider (none) "find_insert_index ls (i + 1) ins = ins"
          "\<forall>l\<in>set (before_namespace ls). \<not> other_using l"
        | (some) k where "find_insert_index ls (i + 1) ins = i + 1 + k" "0 < k"
          "k \<le> length (before_namespace ls)" "other_using (ls ! (k - 1))"
          "\<forall>j. k \<le> j \<and> j < length (before_namespace ls) \<longrightarrow> \<not> other_using (ls ! j)"
        by blast
      then show ?thesis
      proof cases
        case none
        then show ?thesis using run False by (simp add: pre)
      next
        case some
        have "find_insert_index (l # ls) i ins = i + Suc k \<and> 0 < Suc k
            \<and> Suc k \<le> length (before_namespace (l # ls)) \<and> other_using ((l # ls) ! (Suc k - 1))
            \<and> (\<forall>j. Suc k \<le> j \<and> j < length (before_namespace (l # ls))
                  \<longrightarrow> \<not> other_using ((l # ls) ! j))"
          using run some(1-4) shift_later [OF some(5), of l] by (simp add: pre nth_Cons')
        then show ?thesis by blast
      qed
    qed
  qed
qed

lemma find_insert_index_0:
  "find_insert_index ls 0 0 \<le> length (before_namespace ls)
   \<and> (find_insert_index ls 0 0 = 0 \<or> other_using (ls ! (find_insert_index ls 0 0 - 1)))
   \<and> (\<forall>j. find_insert_index ls 0 0 \<le> j \<and> j < length (before_namespace ls)
         \<longrightarrow> \<not> other_using (ls ! j))"
proof -
  have later: "\<not> other_using (ls ! j)"
    if "j < length (before_namespace ls)" "\<forall>l\<in>set (before_namespace ls). \<not> other_using l" for j
  proof -
    have "before_namespace ls ! j \<in> set (before_namespace ls)"
      using that by simp
    moreover have "before_namespace ls ! j = ls ! j"
      using that unfolding before_namespace_def by (intro takeWhile_nth) simp
    ultimately show ?thesis using that(2) by auto
  qed
  from find_insert_index_place [of ls 0 0] show ?thesis
    using later by auto
qed


lemma ensure_xunit_using_lines:
  assumes "contains ''[Test]'' c \<or> contains ''[Fact]'' c" and "\<not> contains ''using Xunit;'' c"
  shows "split nl (ensure_xunit_using c)
           = list_insert (split nl c) (find_insert_index (split nl c) 0 0) ''using Xunit;''"
proof -
  have "ensure_xunit_using c
      = join nl (list_insert (split nl c) (find_insert_index (split nl c) 0 0) ''using Xunit;'')"
    using assms by (simp add: ensure_xunit_using_def Let_def)
  moreover have "split nl (join nl (list_insert (split nl c) k ''using Xunit;''))
      = list_insert (split nl c) k ''using Xunit;''" for k
  proof (rule split_join)
    show "list_insert (split nl c) k ''using Xunit;'' \<noteq> []"
      by (simp add: list_insert_def)
    show "\<forall>l\<in>set (list_insert (split nl c) k ''using Xunit;''). nl \<notin> set l"
      using split_no_sep [of _ nl c]
      by (auto simp: list_insert_def nl_def dest: in_set_takeD in_set_dropD)
  qed
  ultimately show ?thesis by simp
qed

text \<open>
  Where step 1 puts the line when it inserts it: at an index \<open>k\<close> among the lines
  before the first \<^verbatim>\<open>namespace \<close> line, right after the last of them that starts
  with \<^verbatim>\<open>using \<close> and not with \<^verbatim>\<open>using Xunit\<close>, or at the top when there is
  no such line. It inserts it when the text \<^verbatim>\<open>using Xunit;\<close> occurs nowhere in the
  content.
\<close>

lemma using_xunit_place:
  assumes "contains ''[Test]'' c \<or> contains ''[Fact]'' c" and "\<not> contains ''using Xunit;'' c"
  shows "\<exists>k. split nl (ensure_xunit_using c)
               = take k (split nl c) @ ''using Xunit;'' # drop k (split nl c)
           \<and> k \<le> length (before_namespace (split nl c))
           \<and> (k = 0 \<or> other_using (split nl c ! (k - 1)))
           \<and> (\<forall>j. k \<le> j \<and> j < length (before_namespace (split nl c))
                 \<longrightarrow> \<not> other_using (split nl c ! j))"
  using ensure_xunit_using_lines [OF assms] find_insert_index_0 [of "split nl c"]
  unfolding list_insert_def by blast

lemma two_usings_facts:
  "contains ''[Test]'' two_usings" "\<not> contains ''using Xunit;'' two_usings"
  "split nl two_usings
     = [''using System;'', ''using System.IO;'', [], ''namespace N;'', ''using Late;'', ''[Test]'']"
  by code_simp+

lemma two_usings_lines:
  "before_namespace [''using System;'', ''using System.IO;'', [], ''namespace N;'',
      ''using Late;'', ''[Test]''] = [''using System;'', ''using System.IO;'', []]"
  "other_using ''using System;''" "other_using ''using System.IO;''" "\<not> other_using []"
  by (simp_all add: before_namespace_def other_using_def)

lemma using_xunit_place_two_usings:
  "split nl (ensure_xunit_using two_usings)
     = [''using System;'', ''using System.IO;'', ''using Xunit;'', [], ''namespace N;'',
        ''using Late;'', ''[Test]'']"
proof -
  from using_xunit_place [of two_usings]
  obtain k where k: "split nl (ensure_xunit_using two_usings)
               = take k (split nl two_usings) @ ''using Xunit;'' # drop k (split nl two_usings)"
    "k \<le> length (before_namespace (split nl two_usings))"
    "k = 0 \<or> other_using (split nl two_usings ! (k - 1))"
    "\<forall>j. k \<le> j \<and> j < length (before_namespace (split nl two_usings))
                 \<longrightarrow> \<not> other_using (split nl two_usings ! j)"
    using two_usings_facts(1,2) by blast
  have "k \<le> 3"
    using k(2) by (simp add: two_usings_facts(3) two_usings_lines)
  then consider "k = 0" | "k = 1" | "k = 2" | "k = 3"
    by linarith
  then have "k = 2"
  proof cases
    case 1
    then show ?thesis
      using k(4) [rule_format, of 0] by (simp add: two_usings_facts(3) two_usings_lines)
  next
    case 2
    then show ?thesis
      using k(4) [rule_format, of 1] by (simp add: two_usings_facts(3) two_usings_lines)
  next
    case 3
    then show ?thesis by simp
  next
    case 4
    then show ?thesis
      using k(3) by (simp add: two_usings_facts(3) two_usings_lines)
  qed
  then show ?thesis
    using k(1) by (simp add: two_usings_facts(3))
qed

text \<open>
  Claim C10: when the content, after the removal of the TUnit directives, contains
  \<^verbatim>\<open>[Test]\<close> or \<^verbatim>\<open>[Fact]\<close>, the written output contains the line
  \<^verbatim>\<open>using Xunit;\<close>. The comment of line 28 says the same (\<^verbatim>\<open>Ensure xUnit using
  is present if we have test attributes\<close>), but line 30 looks for the text anywhere in the
  content, not for the line: in a file with a marker whose directive is commented out
  nothing is inserted, and no line of the written output is the directive.
\<close>

theorem C10_directive_missing:
  "has_tunit_syntax commented_out
   \<and> contains ''[Test]'' (apply_rules using_rules commented_out)
   \<and> ensure_xunit_using (apply_rules using_rules commented_out) = commented_out
   \<and> convert_content commented_out = ''// using Xunit;'' @ [nl] @ ''[Fact]''
   \<and> ''using Xunit;'' \<notin> set (split nl (convert_content commented_out))"
  by code_simp

section \<open>Async signatures\<close>











text \<open>A line of the form \<^verbatim>\<open>public async Task Name()\<close>, indented or not.\<close>

lemma startswith_append_same [simp]: "startswith (p @ t) p"
  by (simp add: startswith_iff)




















section \<open>A second run\<close>




section \<open>The rule that cannot be applied\<close>


end
